theory Spec2Isabelle
  imports Main
begin

section \<open>Python primitives the server relies on\<close>

text \<open>
  The server is Python. Three primitives of the language carry the behaviour the
  properties below depend on: indexing a list (which raises \<open>IndexError\<close> out of
  range and counts negative indices from the end), the open-ended slice \<open>xs[k:]\<close>
  (which never raises and clamps its start), and \<open>str.split()\<close> without arguments
  (which cuts at runs of whitespace and yields no empty field).
\<close>

datatype py_error = IndexError

definition py_index :: "'a list \<Rightarrow> int \<Rightarrow> py_error + 'a" where
  "py_index xs i =
     (if 0 \<le> i \<and> i < int (length xs) then Inr (xs ! nat i)
      else if i < 0 \<and> - int (length xs) \<le> i then Inr (xs ! nat (int (length xs) + i))
      else Inl IndexError)"

definition py_slice_from :: "'a list \<Rightarrow> int \<Rightarrow> 'a list" where
  "py_slice_from xs k =
     (if k < 0 then drop (nat (max (int (length xs) + k) 0)) xs
      else drop (nat (min k (int (length xs)))) xs)"

text \<open>\<open>range(start, stop)\<close> and \<open>enumerate(xs)\<close>, as the lists they iterate over.\<close>

definition py_range :: "int \<Rightarrow> int \<Rightarrow> int list" where
  "py_range start stop = [start..stop - 1]"

definition py_enumerate :: "'a list \<Rightarrow> (int \<times> 'a) list" where
  "py_enumerate xs = zip (map int [0..<length xs]) xs"

text \<open>
  A character of the model is a code point below 256. Among these, \<open>str.split()\<close>
  treats as whitespace exactly the ones \<open>str.isspace\<close> accepts: tab, line feed,
  vertical tab, form feed, carriage return (9 to 13), the four separators 0x1C
  to 0x1F, the space, the next-line character 0x85 and the no-break space 0xA0.
\<close>

definition py_isspace :: "char \<Rightarrow> bool" where
  "py_isspace c =
     ((of_char c :: nat) \<in> {9, 10, 11, 12, 13, 28, 29, 30, 31, 32, 133, 160})"

fun split_fields :: "string \<Rightarrow> string \<Rightarrow> string list" where
  "split_fields w [] = (if w = [] then [] else [w])"
| "split_fields w (c # cs) =
     (if py_isspace c then (if w = [] then split_fields [] cs else w # split_fields [] cs)
      else split_fields (w @ [c]) cs)"

definition py_split :: "string \<Rightarrow> string list" where
  "py_split s = split_fields [] s"

text \<open>
  A list comprehension whose element expression may raise: the first exception
  ends the comprehension.
\<close>

fun comprehension :: "('a \<Rightarrow> py_error + 'b) \<Rightarrow> 'a list \<Rightarrow> py_error + 'b list" where
  "comprehension f [] = Inr []"
| "comprehension f (x # xs) =
     (case f x of
        Inl e \<Rightarrow> Inl e
      | Inr y \<Rightarrow> (case comprehension f xs of Inl e \<Rightarrow> Inl e | Inr ys \<Rightarrow> Inr (y # ys)))"

text \<open>
  Sequencing of two steps the first of which may raise: the exception of the first
  step is the exception of the whole.
\<close>

definition and_then :: "py_error + 'a \<Rightarrow> ('a \<Rightarrow> py_error + 'b) \<Rightarrow> py_error + 'b" where
  "and_then r f = (case r of Inl e \<Rightarrow> Inl e | Inr x \<Rightarrow> f x)"

section \<open>The rules engine\<close>

text \<open>
  \<open>chess.Board\<close> and \<open>chess.Move\<close> belong to the python-chess library, not to this
  repository. The server uses them through the calls and attributes listed here,
  so the model takes them as a parameter: a board type \<open>'b\<close>, a move type \<open>'m\<close>,
  a piece type \<open>'pc\<close>, and one function per call. \<open>Move_from_uci\<close> returns \<open>Inl\<close>
  of the exception's text where \<open>chess.Move.from_uci\<close> raises; \<open>Board_push\<close> and
  \<open>Board_reset\<close> return the board that the in-place call leaves behind.
\<close>

record ('b, 'm, 'pc) engine =
  Board_new :: 'b
  Board_reset :: "'b \<Rightarrow> 'b"
  Move_from_uci :: "string \<Rightarrow> string + 'm"
  Move_uci :: "'m \<Rightarrow> string"
  Board_legal_moves :: "'b \<Rightarrow> 'm set"
  Board_san :: "'b \<Rightarrow> 'm \<Rightarrow> string"
  Board_push :: "'b \<Rightarrow> 'm \<Rightarrow> 'b"
  Board_move_stack :: "'b \<Rightarrow> 'm list"
  Board_turn :: "'b \<Rightarrow> bool"
  Board_fullmove_number :: "'b \<Rightarrow> int"
  Board_halfmove_clock :: "'b \<Rightarrow> int"
  Board_fen :: "'b \<Rightarrow> string"
  Board_is_check :: "'b \<Rightarrow> bool"
  Board_is_game_over :: "'b \<Rightarrow> bool"
  Board_result :: "'b \<Rightarrow> string"
  Board_piece_map :: "'b \<Rightarrow> (int \<times> 'pc) list"
  square_name :: "int \<Rightarrow> string"
  Piece_symbol :: "'pc \<Rightarrow> string"
  Board_str :: "'b \<Rightarrow> string"

text \<open>
  What the library documents about the move stack and the starting position, as
  far as the properties below need it: \<open>reset()\<close> restores the board a fresh
  \<open>chess.Board()\<close> has; that board has an empty move stack and White to move
  (\<open>turn\<close> is \<open>True\<close> for White); \<open>push\<close> puts exactly one move on top of the move
  stack and leaves the moves below it alone. The pushed move need not be the move
  handed in: the library normalises a castling move before it stores it.
\<close>

definition board_contract :: "('b, 'm, 'pc) engine \<Rightarrow> bool" where
  "board_contract E =
     ((\<forall>b. Board_reset E b = Board_new E)
      \<and> Board_move_stack E (Board_new E) = []
      \<and> Board_turn E (Board_new E)
      \<and> (\<forall>b m. \<exists>m'. Board_move_stack E (Board_push E b m) = Board_move_stack E b @ [m']))"

section \<open>The game state\<close>

record 'b GameState =
  board :: 'b
  san_history :: "string list"

text \<open>
  The dictionaries the server returns. A move record and a status always have
  the same keys, so they are records (\<open>None\<close> is Python's \<open>None\<close>); the other
  dictionaries have keys that depend on the path taken, so they are maps from
  the key to a value.
\<close>

record move_detail =
  ply :: int
  uci :: string
  san :: "string option"
  side :: string

record status_info =
  fen :: string
  side_to_move :: string
  fullmove_number :: int
  halfmove_clock :: int
  ply_count :: int
  castling_rights :: "string option"
  en_passant_square :: "string option"
  last_move_uci :: "string option"
  last_move_san :: "string option"
  who_moved_last :: "string option"
  is_check :: bool
  is_game_over :: bool
  result :: "string option"
  pieces :: "string \<rightharpoonup> string"

datatype py_value =
    PyNone
  | PyBool bool
  | PyStr string
  | PyStrList "string list"
  | PyStatus status_info
  | PyDetails "move_detail list"

type_synonym py_dict = "string \<rightharpoonup> py_value"

text \<open>\<open>d.get(k)\<close> and \<open>bool(v)\<close>.\<close>

definition dict_get :: "py_dict \<Rightarrow> string \<Rightarrow> py_value" where
  "dict_get d k = (case d k of None \<Rightarrow> PyNone | Some v \<Rightarrow> v)"

fun py_bool :: "py_value \<Rightarrow> bool" where
  "py_bool PyNone = False"
| "py_bool (PyBool b) = b"
| "py_bool (PyStr s) = (s \<noteq> [])"
| "py_bool (PyStrList xs) = (xs \<noteq> [])"
| "py_bool (PyStatus st) = True"
| "py_bool (PyDetails ds) = (ds \<noteq> [])"

subsection \<open>\<open>GameState\<close>: construction, reset, moves\<close>

definition new :: "('b, 'm, 'pc) engine \<Rightarrow> 'b GameState" where
  "new E = \<lparr>board = Board_new E, san_history = []\<rparr>"

definition reset :: "('b, 'm, 'pc) engine \<Rightarrow> 'b GameState \<Rightarrow> 'b GameState" where
  "reset E s = s\<lparr>board := Board_reset E (board s), san_history := []\<rparr>"

text \<open>
  \<open>add_move_uci\<close> returns its dictionary and the state it leaves. The rendering
  \<open>san_str\<close> is taken from the board before the push, and appended after it.
\<close>

definition add_move_uci ::
  "('b, 'm, 'pc) engine \<Rightarrow> 'b GameState \<Rightarrow> string \<Rightarrow> py_dict \<times> 'b GameState" where
  "add_move_uci E s u =
     (case Move_from_uci E u of
        Inl exc \<Rightarrow>
          ([''accepted'' \<mapsto> PyBool False,
            ''reason'' \<mapsto> PyStr ''parse_error'',
            ''parse_error'' \<mapsto> PyStr exc], s)
      | Inr move \<Rightarrow>
          if move \<notin> Board_legal_moves E (board s) then
            ([''accepted'' \<mapsto> PyBool False,
              ''reason'' \<mapsto> PyStr ''illegal'',
              ''expected_turn'' \<mapsto> PyStr (if Board_turn E (board s) then ''white'' else ''black'')], s)
          else
            let san_str = Board_san E (board s) move;
                s1 = s\<lparr>board := Board_push E (board s) move\<rparr>;
                s2 = s1\<lparr>san_history := san_history s1 @ [san_str]\<rparr>
            in ([''accepted'' \<mapsto> PyBool True], s2))"

definition is_move_legal ::
  "('b, 'm, 'pc) engine \<Rightarrow> 'b GameState \<Rightarrow> string \<Rightarrow> py_dict \<times> 'b GameState" where
  "is_move_legal E s u =
     (case Move_from_uci E u of
        Inl exc \<Rightarrow> ([''parse_error'' \<mapsto> PyStr exc, ''legal'' \<mapsto> PyBool False], s)
      | Inr move \<Rightarrow> ([''legal'' \<mapsto> PyBool (move \<in> Board_legal_moves E (board s))], s))"

subsection \<open>History views\<close>

definition all_moves :: "('b, 'm, 'pc) engine \<Rightarrow> 'b GameState \<Rightarrow> string list" where
  "all_moves E s = map (Move_uci E) (Board_move_stack E (board s))"

text \<open>The conditional expression \<open>xs[idx] if idx < len(xs) else None\<close>.\<close>

definition item_or_none :: "'a list \<Rightarrow> int \<Rightarrow> py_error + 'a option" where
  "item_or_none xs idx =
     (if idx < int (length xs) then
        and_then (py_index xs idx) (\<lambda>x. Inr (Some x))
      else Inr None)"

text \<open>
  The loop of \<open>all_moves_detailed\<close> over \<open>enumerate(self.board.move_stack)\<close>, with
  the list \<open>details\<close> it appends to.
\<close>

fun all_moves_detailed_loop ::
  "('b, 'm, 'pc) engine \<Rightarrow> 'b GameState \<Rightarrow> (int \<times> 'm) list \<Rightarrow> move_detail list
     \<Rightarrow> py_error + move_detail list" where
  "all_moves_detailed_loop E s [] details = Inr details"
| "all_moves_detailed_loop E s ((idx, move) # rest) details =
     (case item_or_none (san_history s) idx of
        Inl e \<Rightarrow> Inl e
      | Inr san_opt \<Rightarrow>
          all_moves_detailed_loop E s rest
            (details @ [\<lparr>ply = idx + 1, uci = Move_uci E move, san = san_opt,
                          side = (if idx mod 2 = 0 then ''white'' else ''black'')\<rparr>]))"

definition all_moves_detailed ::
  "('b, 'm, 'pc) engine \<Rightarrow> 'b GameState \<Rightarrow> py_error + move_detail list" where
  "all_moves_detailed E s =
     all_moves_detailed_loop E s (py_enumerate (Board_move_stack E (board s))) []"

definition last_n_moves :: "('b, 'm, 'pc) engine \<Rightarrow> 'b GameState \<Rightarrow> int \<Rightarrow> string list" where
  "last_n_moves E s n =
     (if n \<le> 0 then []
      else map (Move_uci E) (py_slice_from (Board_move_stack E (board s)) (- n)))"

text \<open>
  The loop of \<open>last_n_moves_detailed\<close> over \<open>range(start, len(move_stack))\<close>, with
  the list \<open>result\<close> it appends to. It reads \<open>move_stack[idx]\<close> unguarded.
\<close>

fun last_n_moves_detailed_loop ::
  "('b, 'm, 'pc) engine \<Rightarrow> 'b GameState \<Rightarrow> int list \<Rightarrow> move_detail list
     \<Rightarrow> py_error + move_detail list" where
  "last_n_moves_detailed_loop E s [] acc = Inr acc"
| "last_n_moves_detailed_loop E s (idx # rest) acc =
     (case py_index (Board_move_stack E (board s)) idx of
        Inl e \<Rightarrow> Inl e
      | Inr move \<Rightarrow>
          (case item_or_none (san_history s) idx of
             Inl e \<Rightarrow> Inl e
           | Inr san_opt \<Rightarrow>
               last_n_moves_detailed_loop E s rest
                 (acc @ [\<lparr>ply = idx + 1, uci = Move_uci E move, san = san_opt,
                           side = (if idx mod 2 = 0 then ''white'' else ''black'')\<rparr>])))"

definition last_n_moves_detailed ::
  "('b, 'm, 'pc) engine \<Rightarrow> 'b GameState \<Rightarrow> int \<Rightarrow> py_error + move_detail list" where
  "last_n_moves_detailed E s n =
     (if n \<le> 0 then Inr []
      else
        let start = max 0 (int (length (Board_move_stack E (board s))) - n)
        in last_n_moves_detailed_loop E s
             (py_range start (int (length (Board_move_stack E (board s))))) [])"

subsection \<open>Board text, piece map, status\<close>

definition ascii_board :: "('b, 'm, 'pc) engine \<Rightarrow> 'b GameState \<Rightarrow> string" where
  "ascii_board E s = Board_str E (board s)"

definition pieces_map :: "('b, 'm, 'pc) engine \<Rightarrow> 'b GameState \<Rightarrow> (string \<rightharpoonup> string)" where
  "pieces_map E s =
     foldl (\<lambda>mapping (square, piece). mapping(square_name E square \<mapsto> Piece_symbol E piece))
       Map.empty (Board_piece_map E (board s))"

text \<open>
  \<open>status\<close> indexes four lists: \<open>move_stack[-1]\<close>, \<open>san_history[-1]\<close>, \<open>parts[2]\<close>
  and \<open>parts[3]\<close>, each behind the guard the source writes. The model keeps both
  the guard and the indexing, so that a read the guard did not cover would show
  as \<open>Inl IndexError\<close>.
\<close>

definition status :: "('b, 'm, 'pc) engine \<Rightarrow> 'b GameState \<Rightarrow> py_error + status_info" where
  "status E s =
     (let fen_str = Board_fen E (board s);
          parts = py_split fen_str;
          stack = Board_move_stack E (board s)
      in
      and_then
        (if stack \<noteq> [] then and_then (py_index stack (- 1)) (\<lambda>m. Inr (Some (Move_uci E m)))
         else Inr None)
        (\<lambda>lm_uci.
      and_then
        (if san_history s \<noteq> [] then and_then (py_index (san_history s) (- 1)) (\<lambda>x. Inr (Some x))
         else Inr None)
        (\<lambda>lm_san.
      and_then
        (if 3 \<le> length parts then and_then (py_index parts 2) (\<lambda>x. Inr (Some x))
         else Inr None)
        (\<lambda>castling.
      and_then
        (if 4 \<le> length parts then and_then (py_index parts 3) (\<lambda>x. Inr (Some x))
         else Inr None)
        (\<lambda>en_passant.
          Inr \<lparr>fen = fen_str,
               side_to_move = (if Board_turn E (board s) then ''white'' else ''black''),
               fullmove_number = Board_fullmove_number E (board s),
               halfmove_clock = Board_halfmove_clock E (board s),
               ply_count = int (length stack),
               castling_rights = castling,
               en_passant_square = en_passant,
               last_move_uci = lm_uci,
               last_move_san = lm_san,
               who_moved_last =
                 (if stack \<noteq> [] then
                    Some (if (int (length stack) - 1) mod 2 = 0 then ''white'' else ''black'')
                  else None),
               is_check = Board_is_check E (board s),
               is_game_over = Board_is_game_over E (board s),
               result =
                 (if Board_is_game_over E (board s) then Some (Board_result E (board s))
                  else None),
               pieces = pieces_map E s\<rparr>)))))"

section \<open>The tools\<close>

text \<open>
  The module holds one \<open>GameState\<close>, \<open>_GAME\<close>, for the life of the process. A tool
  that can change it takes the state and returns its result together with the
  state it leaves; a tool that only reads it returns its result. A result is
  \<open>Inl\<close> when the tool raises.
\<close>

definition format_move_detail ::
  "('b, 'm, 'pc) engine \<Rightarrow> int \<Rightarrow> 'm \<Rightarrow> string list \<Rightarrow> py_error + move_detail" where
  "format_move_detail E idx move hist =
     and_then (item_or_none hist idx)
       (\<lambda>san_opt. Inr \<lparr>ply = idx + 1, uci = Move_uci E move, san = san_opt,
                          side = (if idx mod 2 = 0 then ''white'' else ''black'')\<rparr>)"

definition create_or_reset_game ::
  "('b, 'm, 'pc) engine \<Rightarrow> 'b GameState \<Rightarrow> (py_error + py_dict) \<times> 'b GameState" where
  "create_or_reset_game E s =
     (let s1 = reset E s
      in (and_then (status E s1) (\<lambda>st.
          and_then
            (comprehension (\<lambda>(idx, move). format_move_detail E idx move (san_history s1))
               (py_enumerate (Board_move_stack E (board s1))))
            (\<lambda>ds. Inr [''ok'' \<mapsto> PyBool True,
                        ''status'' \<mapsto> PyStatus st,
                        ''moves'' \<mapsto> PyStrList (all_moves E s1),
                        ''moves_detailed'' \<mapsto> PyDetails ds])),
          s1))"

definition get_status :: "('b, 'm, 'pc) engine \<Rightarrow> 'b GameState \<Rightarrow> py_error + status_info" where
  "get_status E s = status E s"

definition add_move ::
  "('b, 'm, 'pc) engine \<Rightarrow> 'b GameState \<Rightarrow> string \<Rightarrow> (py_error + py_dict) \<times> 'b GameState" where
  "add_move E s u =
     (let (move_outcome, s1) = add_move_uci E s u;
          flag = py_bool (dict_get move_outcome ''accepted'')
      in (and_then (status E s1) (\<lambda>st.
          let response = [''accepted'' \<mapsto> PyBool flag, ''status'' \<mapsto> PyStatus st]
          in if \<not> flag then
               let response1 =
                     (case move_outcome ''reason'' of
                        Some v \<Rightarrow> response(''reason'' \<mapsto> v)
                      | None \<Rightarrow> response);
                   response2 =
                     (case move_outcome ''expected_turn'' of
                        Some v \<Rightarrow> response1(''expected_turn'' \<mapsto> v)
                      | None \<Rightarrow> response1)
               in Inr response2
             else
               and_then (all_moves_detailed E s1) (\<lambda>ds.
                 Inr (response(''moves'' \<mapsto> PyStrList (all_moves E s1),
                               ''moves_detailed'' \<mapsto> PyDetails ds)))),
          s1))"

definition is_legal ::
  "('b, 'm, 'pc) engine \<Rightarrow> 'b GameState \<Rightarrow> string \<Rightarrow> py_dict \<times> 'b GameState" where
  "is_legal E s u = is_move_legal E s u"

definition list_moves :: "('b, 'm, 'pc) engine \<Rightarrow> 'b GameState \<Rightarrow> string list" where
  "list_moves E s = all_moves E s"

definition list_moves_detailed ::
  "('b, 'm, 'pc) engine \<Rightarrow> 'b GameState \<Rightarrow> py_error + move_detail list" where
  "list_moves_detailed E s =
     comprehension (\<lambda>(idx, move). format_move_detail E idx move (san_history s))
       (py_enumerate (Board_move_stack E (board s)))"

definition last_moves :: "('b, 'm, 'pc) engine \<Rightarrow> 'b GameState \<Rightarrow> int \<Rightarrow> string list" where
  "last_moves E s n = last_n_moves E s n"

definition last_moves_detailed ::
  "('b, 'm, 'pc) engine \<Rightarrow> 'b GameState \<Rightarrow> int \<Rightarrow> py_error + move_detail list" where
  "last_moves_detailed E s n =
     (if n \<le> 0 then Inr []
      else
        let start = max 0 (int (length (Board_move_stack E (board s))) - n)
        in comprehension
             (\<lambda>idx. and_then (py_index (Board_move_stack E (board s)) idx)
                       (\<lambda>move. format_move_detail E idx move (san_history s)))
             (py_range start (int (length (Board_move_stack E (board s))))))"

definition board_ascii :: "('b, 'm, 'pc) engine \<Rightarrow> 'b GameState \<Rightarrow> string" where
  "board_ascii E s = ascii_board E s"

subsection \<open>Sessions\<close>

text \<open>
  A session is the list of tool calls a client makes, run from the state the
  module creates at import. Beside the state, the run keeps a counter that no
  code holds: the number of \<open>add_move\<close> calls answered \<open>accepted: true\<close> since the
  last reset.
\<close>

datatype tool_call =
    Create_or_reset_game
  | Get_status
  | Add_move string
  | Is_legal string
  | List_moves
  | List_moves_detailed
  | Last_moves int
  | Last_moves_detailed int
  | Board_ascii

definition accepted_response :: "py_error + py_dict \<Rightarrow> bool" where
  "accepted_response r =
     (case r of Inl e \<Rightarrow> False | Inr d \<Rightarrow> py_bool (dict_get d ''accepted''))"

fun call_tool ::
  "('b, 'm, 'pc) engine \<Rightarrow> 'b GameState \<times> nat \<Rightarrow> tool_call \<Rightarrow> 'b GameState \<times> nat" where
  "call_tool E (s, k) Create_or_reset_game = (snd (create_or_reset_game E s), 0)"
| "call_tool E (s, k) (Add_move u) =
     (snd (add_move E s u), if accepted_response (fst (add_move E s u)) then Suc k else k)"
| "call_tool E (s, k) (Is_legal u) = (snd (is_legal E s u), k)"
| "call_tool E (s, k) Get_status = (s, k)"
| "call_tool E (s, k) List_moves = (s, k)"
| "call_tool E (s, k) List_moves_detailed = (s, k)"
| "call_tool E (s, k) (Last_moves n) = (s, k)"
| "call_tool E (s, k) (Last_moves_detailed n) = (s, k)"
| "call_tool E (s, k) Board_ascii = (s, k)"

definition session :: "('b, 'm, 'pc) engine \<Rightarrow> tool_call list \<Rightarrow> 'b GameState \<times> nat" where
  "session E calls = foldl (call_tool E) (new E, 0) calls"

section \<open>A small engine for running the operations\<close>

text \<open>
  A two-ply fragment of chess, enough to run the operations on concrete inputs:
  a board is the list of moves played, a move is its four-character descriptor.
  From the starting position White may play \<open>e2e4\<close> or \<open>d2d4\<close>; after \<open>e2e4\<close> Black
  may play \<open>e7e5\<close> or \<open>c7c5\<close>; nothing else is legal. A descriptor parses when it
  names two squares. The rendering of a pawn move is its destination square
  where the move is legal, and \<open>--\<close> elsewhere. A board that play cannot reach
  serializes to a string of two fields only.
\<close>

definition toy_square :: "string \<Rightarrow> bool" where
  "toy_square sq =
     (length sq = 2 \<and> sq ! 0 \<in> set ''abcdefgh'' \<and> sq ! 1 \<in> set ''12345678'')"

definition toy_from_uci :: "string \<Rightarrow> string + string" where
  "toy_from_uci u =
     (if length u = 4 then
        (if toy_square (take 2 u) \<and> toy_square (drop 2 u) then Inr u
         else Inl (''invalid uci: '' @ u))
      else Inl (''expected uci string to be of length 4: '' @ u))"

definition toy_legal_moves :: "string list \<Rightarrow> string set" where
  "toy_legal_moves b =
     (if b = [] then {''e2e4'', ''d2d4''}
      else if b = [''e2e4''] then {''e7e5'', ''c7c5''}
      else {})"

definition toy_san :: "string list \<Rightarrow> string \<Rightarrow> string" where
  "toy_san b m = (if m \<in> toy_legal_moves b then drop 2 m else ''--'')"

definition toy_fen :: "string list \<Rightarrow> string" where
  "toy_fen b =
     (if b = [] then ''rnbqkbnr/pppppppp/8/8/8/8/PPPPPPPP/RNBQKBNR w KQkq - 0 1''
      else if b = [''e2e4''] then ''rnbqkbnr/pppppppp/8/8/4P3/8/PPPP1PPP/RNBQKBNR b KQkq - 0 1''
      else if b = [''d2d4''] then ''rnbqkbnr/pppppppp/8/8/3P4/8/PPP1PPPP/RNBQKBNR b KQkq - 0 1''
      else if b = [''e2e4'', ''e7e5''] then
        ''rnbqkbnr/pppp1ppp/8/4p3/4P3/8/PPPP1PPP/RNBQKBNR w KQkq - 0 2''
      else if b = [''e2e4'', ''c7c5''] then
        ''rnbqkbnr/pp1ppppp/8/2p5/4P3/8/PPPP1PPP/RNBQKBNR w KQkq - 0 2''
      else ''8/8/8/8/8/8/8/8 w'')"

definition toy_square_name :: "int \<Rightarrow> string" where
  "toy_square_name i = [''abcdefgh'' ! nat (i mod 8), ''12345678'' ! nat (i div 8)]"

definition toy_engine :: "(string list, string, char) engine" where
  "toy_engine =
     \<lparr>Board_new = [],
      Board_reset = (\<lambda>b. []),
      Move_from_uci = toy_from_uci,
      Move_uci = (\<lambda>m. m),
      Board_legal_moves = toy_legal_moves,
      Board_san = toy_san,
      Board_push = (\<lambda>b m. b @ [m]),
      Board_move_stack = (\<lambda>b. b),
      Board_turn = (\<lambda>b. even (length b)),
      Board_fullmove_number = (\<lambda>b. 1 + int (length b) div 2),
      Board_halfmove_clock = (\<lambda>b. 0),
      Board_fen = toy_fen,
      Board_is_check = (\<lambda>b. False),
      Board_is_game_over = (\<lambda>b. False),
      Board_result = (\<lambda>b. ''*''),
      Board_piece_map = (\<lambda>b. [(4, CHR ''K''), (8, CHR ''P''), (60, CHR ''k'')]),
      square_name = toy_square_name,
      Piece_symbol = (\<lambda>c. [c]),
      Board_str = (\<lambda>b. ''. . . . k . . .'')\<rparr>"

section \<open>Closed forms\<close>

text \<open>
  The record that the three places building a move record produce for a
  non-negative index: \<open>all_moves_detailed\<close>, \<open>last_n_moves_detailed\<close> and
  \<open>_format_move_detail\<close>. The proofs below show that each of them computes it.
\<close>

definition move_record :: "('b, 'm, 'pc) engine \<Rightarrow> string list \<Rightarrow> int \<Rightarrow> 'm \<Rightarrow> move_detail" where
  "move_record E hist idx move =
     \<lparr>ply = idx + 1, uci = Move_uci E move,
      san = (if idx < int (length hist) then Some (hist ! nat idx) else None),
      side = (if idx mod 2 = 0 then ''white'' else ''black'')\<rparr>"

text \<open>
  The whitespace-delimited fields of a string, said without \<open>str.split()\<close>. A
  string is laid out as a leading gap followed by fields, each with the gap
  after it: \<open>weave lead [(f1, g1), ..., (fk, gk)]\<close> is
  \<open>lead @ f1 @ g1 @ ... @ fk @ gk\<close>. The layout is a field layout when every gap
  is whitespace only, every field is non-empty and free of whitespace, and every
  gap between two fields is non-empty. The fields of the layout, counted from 1,
  are then the whitespace-delimited fields of the string.
\<close>

definition is_gap :: "string \<Rightarrow> bool" where
  "is_gap g = list_all py_isspace g"

definition is_field :: "string \<Rightarrow> bool" where
  "is_field f = (f \<noteq> [] \<and> list_all (\<lambda>c. \<not> py_isspace c) f)"

fun weave :: "string \<Rightarrow> (string \<times> string) list \<Rightarrow> string" where
  "weave lead [] = lead"
| "weave lead ((f, gap) # rest) = lead @ f @ weave gap rest"

fun fields_layout :: "string \<Rightarrow> (string \<times> string) list \<Rightarrow> bool" where
  "fields_layout lead [] = is_gap lead"
| "fields_layout lead ((f, gap) # rest) =
     (is_gap lead \<and> is_field f \<and> (rest = [] \<or> gap \<noteq> []) \<and> fields_layout gap rest)"

subsection \<open>Indexing behind its guards\<close>

lemma py_index_nonneg:
  "0 \<le> i \<Longrightarrow> i < int (length xs) \<Longrightarrow> py_index xs i = Inr (xs ! nat i)"
  by (simp add: py_index_def)

lemma py_index_last: "xs \<noteq> [] \<Longrightarrow> py_index xs (- 1) = Inr (last xs)"
  by (cases xs rule: rev_cases) (simp_all add: py_index_def nth_append)

lemma item_or_none_nonneg:
  "0 \<le> idx \<Longrightarrow>
   item_or_none xs idx = Inr (if idx < int (length xs) then Some (xs ! nat idx) else None)"
  by (simp add: item_or_none_def and_then_def py_index_nonneg)

lemma format_move_detail_nonneg:
  "0 \<le> idx \<Longrightarrow> format_move_detail E idx move hist = Inr (move_record E hist idx move)"
  by (simp add: format_move_detail_def and_then_def item_or_none_nonneg move_record_def)

lemma comprehension_Inr:
  "(\<And>x. x \<in> set xs \<Longrightarrow> f x = Inr (g x)) \<Longrightarrow> comprehension f xs = Inr (map g xs)"
  by (induction xs) simp_all

lemma py_range_nat: "py_range (int a) (int b) = map int [a..<b]"
proof (induction b)
  case 0
  then show ?case by (simp add: py_range_def)
next
  case (Suc b)
  show ?case
  proof (cases "a \<le> b")
    case True
    then have "[int a..int b] = [int a..int b - 1] @ [int b]"
      by (simp add: upto_rec2)
    with True Suc show ?thesis by (simp add: py_range_def)
  next
    case False
    then show ?thesis by (simp add: py_range_def)
  qed
qed

lemma py_enumerate_eq: "py_enumerate xs = map (\<lambda>i. (int i, xs ! i)) [0..<length xs]"
  by (rule nth_equalityI) (simp_all add: py_enumerate_def)

lemma start_nat:
  "0 < n \<Longrightarrow> max 0 (int L - n) = int (L - nat n)"
  by (simp add: max_def)

subsection \<open>The detailed views never raise\<close>

lemma all_moves_detailed_loop_eq:
  "(\<And>z. z \<in> set zs \<Longrightarrow> 0 \<le> fst z) \<Longrightarrow>
   all_moves_detailed_loop E s zs acc =
     Inr (acc @ map (\<lambda>(idx, move). move_record E (san_history s) idx move) zs)"
proof (induction zs arbitrary: acc)
  case Nil
  then show ?case by simp
next
  case (Cons z zs)
  obtain idx move where z: "z = (idx, move)" by (cases z)
  from Cons.prems z have "0 \<le> idx" by force
  moreover have "\<And>z'. z' \<in> set zs \<Longrightarrow> 0 \<le> fst z'" using Cons.prems by simp
  ultimately show ?case
    using Cons.IH z by (simp add: item_or_none_nonneg move_record_def)
qed

lemma last_n_moves_detailed_loop_eq:
  "(\<And>i. i \<in> set idxs \<Longrightarrow> 0 \<le> i \<and> i < int (length (Board_move_stack E (board s)))) \<Longrightarrow>
   last_n_moves_detailed_loop E s idxs acc =
     Inr (acc @ map (\<lambda>idx. move_record E (san_history s) idx
                               (Board_move_stack E (board s) ! nat idx)) idxs)"
proof (induction idxs arbitrary: acc)
  case Nil
  then show ?case by simp
next
  case (Cons i idxs)
  from Cons.prems have i: "0 \<le> i" "i < int (length (Board_move_stack E (board s)))" by simp_all
  moreover have "\<And>j. j \<in> set idxs \<Longrightarrow> 0 \<le> j \<and> j < int (length (Board_move_stack E (board s)))"
    using Cons.prems by simp
  ultimately show ?case
    using Cons.IH by (simp add: item_or_none_nonneg py_index_nonneg move_record_def)
qed

lemma all_moves_detailed_eq:
  "all_moves_detailed E s =
     Inr (map (\<lambda>i. move_record E (san_history s) (int i) (Board_move_stack E (board s) ! i))
            [0..<length (Board_move_stack E (board s))])"
proof -
  have "\<And>z. z \<in> set (py_enumerate (Board_move_stack E (board s))) \<Longrightarrow> 0 \<le> fst z"
    by (auto simp: py_enumerate_eq)
  then show ?thesis
    unfolding all_moves_detailed_def
    by (simp add: all_moves_detailed_loop_eq) (simp add: py_enumerate_eq comp_def)
qed

lemma list_moves_detailed_eq:
  "list_moves_detailed E s =
     Inr (map (\<lambda>i. move_record E (san_history s) (int i) (Board_move_stack E (board s) ! i))
            [0..<length (Board_move_stack E (board s))])"
proof -
  have "comprehension (\<lambda>(idx, move). format_move_detail E idx move (san_history s))
          (py_enumerate (Board_move_stack E (board s))) =
        Inr (map (\<lambda>(idx, move). move_record E (san_history s) idx move)
          (py_enumerate (Board_move_stack E (board s))))"
    by (rule comprehension_Inr) (auto simp: py_enumerate_eq format_move_detail_nonneg)
  then show ?thesis
    by (simp add: list_moves_detailed_def py_enumerate_eq comp_def)
qed

lemma last_n_moves_detailed_eq:
  "0 < n \<Longrightarrow>
   last_n_moves_detailed E s n =
     Inr (map (\<lambda>i. move_record E (san_history s) (int i) (Board_move_stack E (board s) ! i))
            [length (Board_move_stack E (board s)) - nat n..<length (Board_move_stack E (board s))])"
proof -
  assume n: "0 < n"
  let ?ms = "Board_move_stack E (board s)"
  have "\<And>i. i \<in> set (map int [length ?ms - nat n..<length ?ms]) \<Longrightarrow>
          0 \<le> i \<and> i < int (length ?ms)"
    by auto
  then have "last_n_moves_detailed_loop E s (map int [length ?ms - nat n..<length ?ms]) [] =
      Inr ([] @ map (\<lambda>idx. move_record E (san_history s) idx (?ms ! nat idx))
             (map int [length ?ms - nat n..<length ?ms]))"
    by (rule last_n_moves_detailed_loop_eq)
  with n show ?thesis
    by (simp add: last_n_moves_detailed_def start_nat py_range_nat comp_def)
qed

lemma last_moves_detailed_eq:
  "0 < n \<Longrightarrow>
   last_moves_detailed E s n =
     Inr (map (\<lambda>i. move_record E (san_history s) (int i) (Board_move_stack E (board s) ! i))
            [length (Board_move_stack E (board s)) - nat n..<length (Board_move_stack E (board s))])"
proof -
  assume n: "0 < n"
  let ?ms = "Board_move_stack E (board s)"
  have "comprehension
          (\<lambda>idx. and_then (py_index ?ms idx) (\<lambda>move. format_move_detail E idx move (san_history s)))
          (map int [length ?ms - nat n..<length ?ms]) =
        Inr (map (\<lambda>idx. move_record E (san_history s) idx (?ms ! nat idx))
          (map int [length ?ms - nat n..<length ?ms]))"
    by (rule comprehension_Inr)
       (auto simp: and_then_def py_index_nonneg format_move_detail_nonneg)
  with n show ?thesis
    by (simp add: last_moves_detailed_def start_nat py_range_nat comp_def)
qed

subsection \<open>\<open>status\<close> never raises\<close>

lemma status_eq:
  "status E s =
     Inr \<lparr>fen = Board_fen E (board s),
          side_to_move = (if Board_turn E (board s) then ''white'' else ''black''),
          fullmove_number = Board_fullmove_number E (board s),
          halfmove_clock = Board_halfmove_clock E (board s),
          ply_count = int (length (Board_move_stack E (board s))),
          castling_rights =
            (if 3 \<le> length (py_split (Board_fen E (board s)))
             then Some (py_split (Board_fen E (board s)) ! 2) else None),
          en_passant_square =
            (if 4 \<le> length (py_split (Board_fen E (board s)))
             then Some (py_split (Board_fen E (board s)) ! 3) else None),
          last_move_uci =
            (if Board_move_stack E (board s) \<noteq> []
             then Some (Move_uci E (last (Board_move_stack E (board s)))) else None),
          last_move_san = (if san_history s \<noteq> [] then Some (last (san_history s)) else None),
          who_moved_last =
            (if Board_move_stack E (board s) \<noteq> [] then
               Some (if (int (length (Board_move_stack E (board s))) - 1) mod 2 = 0
                     then ''white'' else ''black'')
             else None),
          is_check = Board_is_check E (board s),
          is_game_over = Board_is_game_over E (board s),
          result =
            (if Board_is_game_over E (board s) then Some (Board_result E (board s)) else None),
          pieces = pieces_map E s\<rparr>"
  by (simp add: status_def Let_def and_then_def py_index_nonneg py_index_last)

subsection \<open>The three paths of \<open>add_move_uci\<close>, and the tools above it\<close>

lemma add_move_uci_parse_error:
  "Move_from_uci E u = Inl d \<Longrightarrow>
   add_move_uci E s u =
     ([''accepted'' \<mapsto> PyBool False, ''reason'' \<mapsto> PyStr ''parse_error'',
       ''parse_error'' \<mapsto> PyStr d], s)"
  by (simp add: add_move_uci_def)

lemma add_move_uci_illegal:
  "Move_from_uci E u = Inr m \<Longrightarrow> m \<notin> Board_legal_moves E (board s) \<Longrightarrow>
   add_move_uci E s u =
     ([''accepted'' \<mapsto> PyBool False, ''reason'' \<mapsto> PyStr ''illegal'',
       ''expected_turn'' \<mapsto> PyStr (if Board_turn E (board s) then ''white'' else ''black'')], s)"
  by (simp add: add_move_uci_def)

lemma add_move_uci_legal:
  "Move_from_uci E u = Inr m \<Longrightarrow> m \<in> Board_legal_moves E (board s) \<Longrightarrow>
   add_move_uci E s u =
     ([''accepted'' \<mapsto> PyBool True],
      s\<lparr>board := Board_push E (board s) m,
        san_history := san_history s @ [Board_san E (board s) m]\<rparr>)"
  by (simp add: add_move_uci_def Let_def)

lemma add_move_state: "snd (add_move E s u) = snd (add_move_uci E s u)"
  by (simp add: add_move_def Let_def split: prod.split)

lemma add_move_response:
  "\<exists>r. fst (add_move E s u) = Inr r
     \<and> r ''accepted'' =
         Some (PyBool (\<exists>m. Move_from_uci E u = Inr m \<and> m \<in> Board_legal_moves E (board s)))"
proof (cases "Move_from_uci E u")
  case (Inl d)
  then show ?thesis
    by (simp add: add_move_def add_move_uci_parse_error status_eq and_then_def dict_get_def
        Let_def)
next
  case (Inr m)
  show ?thesis
  proof (cases "m \<in> Board_legal_moves E (board s)")
    case True
    with Inr show ?thesis
      by (simp add: add_move_def add_move_uci_legal status_eq all_moves_detailed_eq
          and_then_def dict_get_def Let_def)
  next
    case False
    with Inr show ?thesis
      by (simp add: add_move_def add_move_uci_illegal status_eq and_then_def dict_get_def
          Let_def)
  qed
qed

lemma accepted_response_add_move:
  "accepted_response (fst (add_move E s u)) =
     (\<exists>m. Move_from_uci E u = Inr m \<and> m \<in> Board_legal_moves E (board s))"
proof -
  obtain r where "fst (add_move E s u) = Inr r"
    and "r ''accepted'' =
      Some (PyBool (\<exists>m. Move_from_uci E u = Inr m \<and> m \<in> Board_legal_moves E (board s)))"
    using add_move_response by blast
  then show ?thesis by (simp add: accepted_response_def dict_get_def)
qed

lemma create_or_reset_game_state: "snd (create_or_reset_game E s) = reset E s"
  by (simp add: create_or_reset_game_def Let_def)

lemma push_length:
  "board_contract E \<Longrightarrow>
   length (Board_move_stack E (Board_push E b m)) = Suc (length (Board_move_stack E b))"
proof -
  assume "board_contract E"
  then obtain m' where "Board_move_stack E (Board_push E b m) = Board_move_stack E b @ [m']"
    unfolding board_contract_def by blast
  then show ?thesis by simp
qed

lemma toy_contract: "board_contract toy_engine"
  by (simp add: board_contract_def toy_engine_def)

subsection \<open>\<open>str.split()\<close>\<close>

text \<open>
  The fields \<open>py_split\<close> returns are the maximal runs of characters that are not
  whitespace: whitespace in front is skipped, a field ends at the first
  whitespace character after it, and no field is empty or holds whitespace.
\<close>

lemma split_fields_word:
  "\<forall>c\<in>set f. \<not> py_isspace c \<Longrightarrow> split_fields w (f @ rest) = split_fields (w @ f) rest"
  by (induction f arbitrary: w) simp_all

lemma split_fields_gap:
  "\<forall>c\<in>set ws. py_isspace c \<Longrightarrow> split_fields [] (ws @ rest) = split_fields [] rest"
  by (induction ws) simp_all

lemma py_split_leading_gap:
  "\<forall>c\<in>set ws. py_isspace c \<Longrightarrow> py_split (ws @ rest) = py_split rest"
  by (simp add: py_split_def split_fields_gap)

lemma py_split_first_field:
  "f \<noteq> [] \<Longrightarrow> \<forall>c\<in>set f. \<not> py_isspace c \<Longrightarrow> py_isspace c \<Longrightarrow>
   py_split (f @ c # rest) = f # py_split rest"
  by (simp add: py_split_def split_fields_word)

lemma py_split_only_field:
  "f \<noteq> [] \<Longrightarrow> \<forall>c\<in>set f. \<not> py_isspace c \<Longrightarrow> py_split f = [f]"
  using split_fields_word [of f "[]" "[]"] by (simp add: py_split_def)

lemma split_fields_clean:
  "\<forall>c\<in>set w. \<not> py_isspace c \<Longrightarrow> f \<in> set (split_fields w s) \<Longrightarrow>
   f \<noteq> [] \<and> (\<forall>c\<in>set f. \<not> py_isspace c)"
proof (induction s arbitrary: w)
  case Nil
  then show ?case by (cases "w = []") simp_all
next
  case (Cons c cs)
  show ?case
  proof (cases "py_isspace c")
    case space: True
    show ?thesis
    proof (cases "w = []")
      case True
      with space Cons.prems(2) have "f \<in> set (split_fields [] cs)" by simp
      with Cons.IH [of "[]"] show ?thesis by simp
    next
      case False
      with space Cons.prems(2) have "f = w \<or> f \<in> set (split_fields [] cs)" by simp
      then show ?thesis
      proof
        assume "f = w"
        with False Cons.prems(1) show ?thesis by simp
      next
        assume "f \<in> set (split_fields [] cs)"
        with Cons.IH [of "[]"] show ?thesis by simp
      qed
    qed
  next
    case False
    with Cons.prems(2) have "f \<in> set (split_fields (w @ [c]) cs)" by simp
    moreover from False Cons.prems(1) have "\<forall>c'\<in>set (w @ [c]). \<not> py_isspace c'" by simp
    ultimately show ?thesis using Cons.IH by blast
  qed
qed

lemma py_split_clean:
  "f \<in> set (py_split s) \<Longrightarrow> f \<noteq> [] \<and> (\<forall>c\<in>set f. \<not> py_isspace c)"
  using split_fields_clean [of "[]" f s] by (simp add: py_split_def)

lemma py_split_start_position:
  "py_split ''rnbqkbnr/pppppppp/8/8/8/8/PPPPPPPP/RNBQKBNR w KQkq - 0 1'' =
     [''rnbqkbnr/pppppppp/8/8/8/8/PPPPPPPP/RNBQKBNR'', ''w'', ''KQkq'', ''-'', ''0'', ''1'']"
  by (simp add: py_split_def py_isspace_def)

text \<open>
  Every string has a field layout, and \<open>py_split\<close> returns the fields of any
  layout of its argument: the layout's fields are determined by the string.
\<close>

lemma fields_layout_lead: "fields_layout lead fgs \<Longrightarrow> is_gap lead"
  by (cases fgs) auto

lemma py_split_gap: "is_gap g \<Longrightarrow> py_split g = []"
  using split_fields_gap [of g "[]"] by (simp add: py_split_def is_gap_def list_all_iff)

lemma py_split_field_then:
  assumes "is_field f" and "w = [] \<or> py_isspace (hd w)"
  shows "py_split (f @ w) = f # py_split w"
proof (cases w)
  case Nil
  with assms(1) show ?thesis
    by (simp add: is_field_def list_all_iff py_split_only_field) (simp add: py_split_def)
next
  case (Cons c w')
  with assms(2) have c: "py_isspace c" by simp
  have "py_split (f @ c # w') = f # py_split w'"
    using assms(1) c by (simp add: is_field_def list_all_iff py_split_first_field)
  moreover have "py_split (c # w') = py_split w'"
    using py_split_leading_gap [of "[c]" w'] c by simp
  ultimately show ?thesis using Cons by simp
qed

lemma weave_head:
  "fields_layout gap rest \<Longrightarrow> rest = [] \<or> gap \<noteq> [] \<Longrightarrow>
   weave gap rest = [] \<or> py_isspace (hd (weave gap rest))"
proof (cases "gap = []")
  case True
  assume "rest = [] \<or> gap \<noteq> []"
  with True show ?thesis by simp
next
  case False
  assume "fields_layout gap rest"
  then have "is_gap gap" by (rule fields_layout_lead)
  with False have "py_isspace (hd gap)"
    by (cases gap) (simp_all add: is_gap_def)
  moreover from False have "hd (weave gap rest) = hd gap"
    by (cases rest) auto
  ultimately show ?thesis by simp
qed

lemma py_split_weave:
  "fields_layout lead fgs \<Longrightarrow> py_split (weave lead fgs) = map fst fgs"
proof (induction fgs arbitrary: lead)
  case Nil
  then show ?case by (simp add: py_split_gap)
next
  case (Cons fg rest)
  obtain f gap where fg: "fg = (f, gap)" by (cases fg)
  from Cons.prems fg have lead: "is_gap lead" and f: "is_field f"
    and gap: "rest = [] \<or> gap \<noteq> []" and lay: "fields_layout gap rest"
    by simp_all
  have "py_split (weave lead (fg # rest)) = py_split (f @ weave gap rest)"
    using lead fg py_split_leading_gap [of lead "f @ weave gap rest"]
    by (simp add: is_gap_def list_all_iff)
  also have "\<dots> = f # py_split (weave gap rest)"
    using f weave_head [OF lay gap] by (rule py_split_field_then)
  also have "py_split (weave gap rest) = map fst rest"
    using lay by (rule Cons.IH)
  finally show ?case using fg by simp
qed

lemma every_string_has_layout:
  "\<exists>lead fgs. fields_layout lead fgs \<and> x = weave lead fgs"
proof (induction x)
  case Nil
  have "fields_layout [] [] \<and> [] = weave [] []" by (simp add: is_gap_def)
  then show ?case by blast
next
  case (Cons c x)
  then obtain lead fgs where lay: "fields_layout lead fgs" and x: "x = weave lead fgs"
    by blast
  from lay have lead: "is_gap lead" by (rule fields_layout_lead)
  show ?case
  proof (cases "py_isspace c")
    case True
    with lay lead have "fields_layout (c # lead) fgs"
      by (cases fgs) (auto simp: is_gap_def)
    moreover from x have "c # x = weave (c # lead) fgs"
      by (cases fgs) auto
    ultimately show ?thesis by blast
  next
    case False
    show ?thesis
    proof (cases "lead = []")
      case lead_nonempty: False
      with lay False have "fields_layout [] (([c], lead) # fgs)"
        by (simp add: is_gap_def is_field_def)
      moreover from x have "c # x = weave [] (([c], lead) # fgs)" by simp
      ultimately show ?thesis by blast
    next
      case True
      show ?thesis
      proof (cases fgs)
        case Nil
        with True x have "c # x = weave [] [([c], [])]" by simp
        moreover from False have "fields_layout [] [([c], [])]"
          by (simp add: is_gap_def is_field_def)
        ultimately show ?thesis by blast
      next
        case (Cons fg rest)
        obtain f gap where fg: "fg = (f, gap)" by (cases fg)
        from lay Cons fg False have "fields_layout [] ((c # f, gap) # rest)"
          by (simp add: is_gap_def is_field_def)
        moreover from x True Cons fg have "c # x = weave [] ((c # f, gap) # rest)" by simp
        ultimately show ?thesis by blast
      qed
    qed
  qed
qed

section \<open>Rejected moves\<close>

text \<open>
  C1. \<open>add_move_uci\<close> answers \<open>accepted: False\<close> exactly when the descriptor does
  not parse or the parsed move is not among the legal moves of the current board;
  and whenever it does, the state after the call is the state before it, board
  and notation history alike. The same holds for the state the \<open>add_move\<close> tool
  leaves.
\<close>

theorem rejected_move_leaves_state:
  "((fst (add_move_uci E s u) ''accepted'' = Some (PyBool False)) =
      ((\<exists>d. Move_from_uci E u = Inl d) \<or>
       (\<exists>m. Move_from_uci E u = Inr m \<and> m \<notin> Board_legal_moves E (board s))))
   \<and> (fst (add_move_uci E s u) ''accepted'' = Some (PyBool False) \<longrightarrow>
        snd (add_move_uci E s u) = s \<and> snd (add_move E s u) = s)"
proof (cases "Move_from_uci E u")
  case (Inl d)
  then show ?thesis
    by (simp add: add_move_state add_move_uci_parse_error)
next
  case (Inr m)
  show ?thesis
  proof (cases "m \<in> Board_legal_moves E (board s)")
    case True
    with Inr show ?thesis by (simp add: add_move_state add_move_uci_legal)
  next
    case False
    with Inr show ?thesis by (simp add: add_move_state add_move_uci_illegal)
  qed
qed

theorem rejected_move_leaves_state_witness:
  "fst (add_move_uci toy_engine \<lparr>board = [''e2e4''], san_history = [''e4'']\<rparr> ''e2e4'') ''accepted''
     = Some (PyBool False)
   \<and> snd (add_move_uci toy_engine \<lparr>board = [''e2e4''], san_history = [''e4'']\<rparr> ''e2e4'')
     = \<lparr>board = [''e2e4''], san_history = [''e4'']\<rparr>
   \<and> snd (add_move toy_engine \<lparr>board = [''e2e4''], san_history = [''e4'']\<rparr> ''e2e4'')
     = \<lparr>board = [''e2e4''], san_history = [''e4'']\<rparr>
   \<and> fst (add_move_uci toy_engine \<lparr>board = [''e2e4''], san_history = [''e4'']\<rparr> ''zz99'') ''accepted''
     = Some (PyBool False)
   \<and> snd (add_move toy_engine \<lparr>board = [''e2e4''], san_history = [''e4'']\<rparr> ''zz99'')
     = \<lparr>board = [''e2e4''], san_history = [''e4'']\<rparr>"
proof -
  let ?s = "\<lparr>board = [''e2e4''], san_history = [''e4'']\<rparr> :: string list GameState"
  have illegal: "fst (add_move_uci toy_engine ?s ''e2e4'') ''accepted'' = Some (PyBool False)"
    by (simp add: add_move_uci_def toy_engine_def toy_from_uci_def toy_square_def
        toy_legal_moves_def)
  have parse: "fst (add_move_uci toy_engine ?s ''zz99'') ''accepted'' = Some (PyBool False)"
    by (simp add: add_move_uci_def toy_engine_def toy_from_uci_def toy_square_def)
  from illegal parse
    rejected_move_leaves_state [of toy_engine ?s "''e2e4''"]
    rejected_move_leaves_state [of toy_engine ?s "''zz99''"]
  show ?thesis by blast
qed

text \<open>
  C2. When the descriptor does not parse, \<open>add_move_uci\<close> returns the reason
  \<open>parse_error\<close> together with the exception text under the key \<open>parse_error\<close>.
  The \<open>add_move\<close> tool copies \<open>reason\<close> and \<open>expected_turn\<close> from that dictionary
  into its response, and nothing else: its response has the keys \<open>accepted\<close>,
  \<open>status\<close> and \<open>reason\<close>, and no diagnostic text.
\<close>

theorem add_move_drops_parse_diagnostic:
  assumes "Move_from_uci E u = Inl d"
  shows "fst (add_move_uci E s u) ''reason'' = Some (PyStr ''parse_error'')
     \<and> fst (add_move_uci E s u) ''parse_error'' = Some (PyStr d)
     \<and> (\<exists>r. fst (add_move E s u) = Inr r
           \<and> r ''accepted'' = Some (PyBool False)
           \<and> r ''reason'' = Some (PyStr ''parse_error'')
           \<and> r ''parse_error'' = None
           \<and> dom r = {''accepted'', ''status'', ''reason''})"
  using assms
  by (auto simp: add_move_def add_move_uci_parse_error status_eq and_then_def dict_get_def
      Let_def)

theorem add_move_drops_parse_diagnostic_witness:
  "Move_from_uci toy_engine ''zz99'' = Inl ''invalid uci: zz99''
   \<and> fst (add_move_uci toy_engine (new toy_engine) ''zz99'') ''parse_error''
       = Some (PyStr ''invalid uci: zz99'')
   \<and> (\<exists>r. fst (add_move toy_engine (new toy_engine) ''zz99'') = Inr r
         \<and> r ''reason'' = Some (PyStr ''parse_error'')
         \<and> r ''parse_error'' = None)"
proof -
  have h: "Move_from_uci toy_engine ''zz99'' = Inl ''invalid uci: zz99''"
    by (simp add: toy_engine_def toy_from_uci_def toy_square_def)
  from add_move_drops_parse_diagnostic [OF h, of "new toy_engine"] h
  show ?thesis by blast
qed

section \<open>The history invariant\<close>

text \<open>
  C3. After every session (any list of tool calls from the state the module
  starts with), the notation history is as long as the move stack, both are as
  long as the number of moves accepted since the last reset, and that number is
  the \<open>ply_count\<close> that \<open>status\<close> reports. This rests on the library's contract for
  the move stack.
\<close>

lemma call_tool_preserves:
  assumes "board_contract E"
    and "length (san_history s) = k"
    and "length (Board_move_stack E (board s)) = k"
  shows "length (san_history (fst (call_tool E (s, k) c))) = snd (call_tool E (s, k) c)
     \<and> length (Board_move_stack E (board (fst (call_tool E (s, k) c)))) = snd (call_tool E (s, k) c)"
proof (cases c)
  case Create_or_reset_game
  with assms(1) show ?thesis
    by (simp add: create_or_reset_game_state reset_def board_contract_def)
next
  case (Add_move u)
  show ?thesis
  proof (cases "Move_from_uci E u")
    case (Inl d)
    with Add_move assms show ?thesis
      by (simp add: accepted_response_add_move add_move_state add_move_uci_parse_error)
  next
    case (Inr m)
    show ?thesis
    proof (cases "m \<in> Board_legal_moves E (board s)")
      case True
      with Inr Add_move assms show ?thesis
        by (simp add: accepted_response_add_move add_move_state add_move_uci_legal push_length)
    next
      case False
      with Inr Add_move assms show ?thesis
        by (simp add: accepted_response_add_move add_move_state add_move_uci_illegal)
    qed
  qed
next
  case (Is_legal u)
  with assms show ?thesis
    by (simp add: is_legal_def is_move_legal_def split: sum.split)
qed (use assms in simp_all)

lemma foldl_call_tool_preserves:
  assumes "board_contract E"
  shows "length (san_history s) = k \<Longrightarrow> length (Board_move_stack E (board s)) = k \<Longrightarrow>
     length (san_history (fst (foldl (call_tool E) (s, k) calls)))
       = snd (foldl (call_tool E) (s, k) calls)
     \<and> length (Board_move_stack E (board (fst (foldl (call_tool E) (s, k) calls))))
       = snd (foldl (call_tool E) (s, k) calls)"
proof (induction calls arbitrary: s k)
  case Nil
  then show ?case by simp
next
  case (Cons c calls)
  obtain s1 k1 where step: "call_tool E (s, k) c = (s1, k1)" by (cases "call_tool E (s, k) c")
  from call_tool_preserves [OF assms Cons.prems, of c] step
  have "length (san_history s1) = k1" "length (Board_move_stack E (board s1)) = k1"
    by simp_all
  from Cons.IH [OF this] step show ?case by simp
qed

theorem history_length_is_ply_count:
  assumes "board_contract E"
  shows "length (san_history (fst (session E calls))) = snd (session E calls)
     \<and> length (Board_move_stack E (board (fst (session E calls)))) = snd (session E calls)
     \<and> (\<exists>st. status E (fst (session E calls)) = Inr st
           \<and> get_status E (fst (session E calls)) = Inr st
           \<and> ply_count st = int (snd (session E calls)))"
proof -
  from assms have start: "length (san_history (new E)) = 0"
    "length (Board_move_stack E (board (new E))) = 0"
    by (simp_all add: new_def board_contract_def)
  from foldl_call_tool_preserves [OF assms start, of calls]
  show ?thesis by (simp add: session_def get_status_def status_eq)
qed

theorem history_length_is_ply_count_witness:
  "board_contract toy_engine
   \<and> session toy_engine
        [Add_move ''e2e4'', Add_move ''e2e4'', Add_move ''zz99'', Is_legal ''e7e5'',
         Add_move ''e7e5'', Get_status]
       = (\<lparr>board = [''e2e4'', ''e7e5''], san_history = [''e4'', ''e5'']\<rparr>, 2)
   \<and> (\<exists>st. status toy_engine \<lparr>board = [''e2e4'', ''e7e5''], san_history = [''e4'', ''e5'']\<rparr>
              = Inr st \<and> ply_count st = 2)"
proof -
  let ?calls = "[Add_move ''e2e4'', Add_move ''e2e4'', Add_move ''zz99'', Is_legal ''e7e5'',
         Add_move ''e7e5'', Get_status]"
  have run: "session toy_engine ?calls
       = (\<lparr>board = [''e2e4'', ''e7e5''], san_history = [''e4'', ''e5'']\<rparr>, 2)"
    by (simp add: session_def new_def add_move_state accepted_response_add_move
        add_move_uci_def is_legal_def is_move_legal_def Let_def
        toy_engine_def toy_from_uci_def toy_square_def toy_legal_moves_def toy_san_def)
  from history_length_is_ply_count [OF toy_contract, of ?calls]
  have "\<exists>st. status toy_engine (fst (session toy_engine ?calls)) = Inr st
          \<and> ply_count st = int (snd (session toy_engine ?calls))"
    by blast
  then have "\<exists>st. status toy_engine
       \<lparr>board = [''e2e4'', ''e7e5''], san_history = [''e4'', ''e5'']\<rparr> = Inr st
       \<and> ply_count st = 2"
    by (simp add: run)
  with run toy_contract show ?thesis by blast
qed

section \<open>Move records\<close>

text \<open>
  C4. In the full detailed views (\<open>all_moves_detailed\<close> and the
  \<open>list_moves_detailed\<close> tool, which agree), the record at 0-based index \<open>i\<close> has
  ply \<open>i + 1\<close> and side \<open>white\<close> exactly when \<open>i\<close> is even, that is, exactly when
  its ply is odd. In the suffix views every record has side \<open>white\<close> exactly when
  its ply is odd, and \<open>black\<close> otherwise. This holds in every state.
\<close>

theorem side_follows_ply_parity:
  "(\<exists>ds. all_moves_detailed E s = Inr ds \<and> list_moves_detailed E s = Inr ds
        \<and> length ds = length (Board_move_stack E (board s))
        \<and> (\<forall>i<length ds.
              ply (ds ! i) = int i + 1
              \<and> (side (ds ! i) = ''white'') = even i
              \<and> (side (ds ! i) = ''black'') = odd i
              \<and> (side (ds ! i) = ''white'') = odd (ply (ds ! i))))
   \<and> (\<exists>ds. last_n_moves_detailed E s n = Inr ds \<and> last_moves_detailed E s n = Inr ds
        \<and> (\<forall>r\<in>set ds.
              (side r = ''white'') = odd (ply r) \<and> (side r = ''black'') = even (ply r)))"
proof -
  have rec: "\<And>hist i m. ply (move_record E hist (int i) m) = int i + 1
      \<and> (side (move_record E hist (int i) m) = ''white'') = even i
      \<and> (side (move_record E hist (int i) m) = ''black'') = odd i"
    by (simp add: move_record_def even_iff_mod_2_eq_zero) presburger
  have full: "\<exists>ds. all_moves_detailed E s = Inr ds \<and> list_moves_detailed E s = Inr ds
        \<and> length ds = length (Board_move_stack E (board s))
        \<and> (\<forall>i<length ds.
              ply (ds ! i) = int i + 1
              \<and> (side (ds ! i) = ''white'') = even i
              \<and> (side (ds ! i) = ''black'') = odd i
              \<and> (side (ds ! i) = ''white'') = odd (ply (ds ! i)))"
    by (simp add: all_moves_detailed_eq list_moves_detailed_eq rec)
  have suffix: "\<exists>ds. last_n_moves_detailed E s n = Inr ds \<and> last_moves_detailed E s n = Inr ds
        \<and> (\<forall>r\<in>set ds.
              (side r = ''white'') = odd (ply r) \<and> (side r = ''black'') = even (ply r))"
  proof (cases "n \<le> 0")
    case True
    then show ?thesis by (simp add: last_n_moves_detailed_def last_moves_detailed_def)
  next
    case False
    then have "0 < n" by simp
    then show ?thesis
      by (auto simp: last_n_moves_detailed_eq last_moves_detailed_eq rec)
  qed
  from full suffix show ?thesis by blast
qed

theorem side_follows_ply_parity_witness:
  "\<exists>ds. all_moves_detailed toy_engine
           \<lparr>board = [''e2e4'', ''e7e5''], san_history = [''e4'', ''e5'']\<rparr> = Inr ds
     \<and> length ds = 2
     \<and> side (ds ! 0) = ''white'' \<and> ply (ds ! 0) = 1
     \<and> side (ds ! 1) = ''black'' \<and> ply (ds ! 1) = 2"
proof -
  let ?s = "\<lparr>board = [''e2e4'', ''e7e5''], san_history = [''e4'', ''e5'']\<rparr> :: string list GameState"
  from side_follows_ply_parity [of toy_engine ?s 1]
  obtain ds where ds: "all_moves_detailed toy_engine ?s = Inr ds"
    and len: "length ds = length (Board_move_stack toy_engine (board ?s))"
    and par: "\<forall>i<length ds.
              ply (ds ! i) = int i + 1
              \<and> (side (ds ! i) = ''white'') = even i
              \<and> (side (ds ! i) = ''black'') = odd i
              \<and> (side (ds ! i) = ''white'') = odd (ply (ds ! i))"
    by blast
  from len have l2: "length ds = 2" by (simp add: toy_engine_def)
  from par l2 have "side (ds ! 0) = ''white'' \<and> ply (ds ! 0) = 1" by simp
  moreover from par l2 have "side (ds ! 1) = ''black'' \<and> ply (ds ! 1) = 2" by simp
  ultimately show ?thesis using ds l2 by blast
qed

text \<open>
  C5. For every integer \<open>n\<close>: \<open>last_n_moves\<close> and \<open>last_n_moves_detailed\<close> return the
  empty list when \<open>n \<le> 0\<close>; they return the full history, in order, when \<open>n\<close> is
  at least its length; and for \<open>n > 0\<close> they return the suffix of the history of
  length \<open>min n (len history)\<close>.
\<close>

lemma last_n_moves_drop:
  "0 < n \<Longrightarrow>
   last_n_moves E s n = drop (length (all_moves E s) - nat n) (all_moves E s)"
proof -
  assume n: "0 < n"
  let ?L = "length (Board_move_stack E (board s))"
  from n have "nat (max (int ?L + - n) 0) = ?L - nat n" by arith
  with n show ?thesis
    by (simp add: last_n_moves_def all_moves_def py_slice_from_def drop_map)
qed

theorem last_n_views:
  "(n \<le> 0 \<longrightarrow> last_n_moves E s n = [] \<and> last_n_moves_detailed E s n = Inr [])
   \<and> (int (length (all_moves E s)) \<le> n \<longrightarrow>
        last_n_moves E s n = all_moves E s
        \<and> last_n_moves_detailed E s n = all_moves_detailed E s)
   \<and> (0 < n \<longrightarrow>
        last_n_moves E s n = drop (length (all_moves E s) - nat n) (all_moves E s)
        \<and> length (last_n_moves E s n) = min (nat n) (length (all_moves E s))
        \<and> (\<exists>ds. all_moves_detailed E s = Inr ds
              \<and> length ds = length (all_moves E s)
              \<and> last_n_moves_detailed E s n = Inr (drop (length ds - nat n) ds)
              \<and> length (drop (length ds - nat n) ds) = min (nat n) (length ds)))"
proof -
  let ?ms = "Board_move_stack E (board s)"
  let ?L = "length ?ms"
  let ?f = "\<lambda>i. move_record E (san_history s) (int i) (?ms ! i)"
  have len: "length (all_moves E s) = ?L" by (simp add: all_moves_def)
  have nonpos: "n \<le> 0 \<longrightarrow> last_n_moves E s n = [] \<and> last_n_moves_detailed E s n = Inr []"
    by (simp add: last_n_moves_def last_n_moves_detailed_def)
  have pos: "0 < n \<longrightarrow>
        last_n_moves E s n = drop (length (all_moves E s) - nat n) (all_moves E s)
        \<and> length (last_n_moves E s n) = min (nat n) (length (all_moves E s))
        \<and> (\<exists>ds. all_moves_detailed E s = Inr ds
              \<and> length ds = length (all_moves E s)
              \<and> last_n_moves_detailed E s n = Inr (drop (length ds - nat n) ds)
              \<and> length (drop (length ds - nat n) ds) = min (nat n) (length ds))"
  proof
    assume n: "0 < n"
    have a: "last_n_moves E s n = drop (length (all_moves E s) - nat n) (all_moves E s)"
      using n by (rule last_n_moves_drop)
    have b: "length (last_n_moves E s n) = min (nat n) (length (all_moves E s))"
      by (simp add: a)
    have "map ?f [?L - nat n..<?L] = drop (?L - nat n) (map ?f [0..<?L])"
      by (simp add: drop_map)
    then have c: "last_n_moves_detailed E s n
        = Inr (drop (length (map ?f [0..<?L]) - nat n) (map ?f [0..<?L]))"
      using n by (simp add: last_n_moves_detailed_eq)
    have d: "length (drop (length (map ?f [0..<?L]) - nat n) (map ?f [0..<?L]))
        = min (nat n) (length (map ?f [0..<?L]))"
      by simp
    have e: "all_moves_detailed E s = Inr (map ?f [0..<?L])"
      by (rule all_moves_detailed_eq)
    have f: "length (map ?f [0..<?L]) = length (all_moves E s)"
      by (simp add: len)
    from a b c d e f
    show "last_n_moves E s n = drop (length (all_moves E s) - nat n) (all_moves E s)
        \<and> length (last_n_moves E s n) = min (nat n) (length (all_moves E s))
        \<and> (\<exists>ds. all_moves_detailed E s = Inr ds
              \<and> length ds = length (all_moves E s)
              \<and> last_n_moves_detailed E s n = Inr (drop (length ds - nat n) ds)
              \<and> length (drop (length ds - nat n) ds) = min (nat n) (length ds))"
      by blast
  qed
  have full: "int (length (all_moves E s)) \<le> n \<longrightarrow>
        last_n_moves E s n = all_moves E s
        \<and> last_n_moves_detailed E s n = all_moves_detailed E s"
  proof
    assume big: "int (length (all_moves E s)) \<le> n"
    show "last_n_moves E s n = all_moves E s
        \<and> last_n_moves_detailed E s n = all_moves_detailed E s"
    proof (cases "0 < n")
      case True
      with big len have z: "?L - nat n = 0" by simp
      from True have "last_n_moves E s n = all_moves E s"
        using z by (simp add: last_n_moves_drop len)
      moreover from True have "last_n_moves_detailed E s n = all_moves_detailed E s"
        using z by (simp add: last_n_moves_detailed_eq all_moves_detailed_eq)
      ultimately show ?thesis by simp
    next
      case False
      with big len have "?L = 0" by arith
      then have "?ms = []" by simp
      with False show ?thesis
        by (simp add: last_n_moves_def last_n_moves_detailed_def all_moves_def
            all_moves_detailed_eq)
    qed
  qed
  from nonpos full pos show ?thesis by blast
qed

theorem last_n_views_witness:
  "last_n_moves toy_engine \<lparr>board = [''e2e4'', ''e7e5''], san_history = [''e4'', ''e5'']\<rparr> 0 = []
   \<and> last_n_moves toy_engine \<lparr>board = [''e2e4'', ''e7e5''], san_history = [''e4'', ''e5'']\<rparr> 1
       = [''e7e5'']
   \<and> last_n_moves toy_engine \<lparr>board = [''e2e4'', ''e7e5''], san_history = [''e4'', ''e5'']\<rparr> 5
       = [''e2e4'', ''e7e5'']
   \<and> last_n_moves_detailed toy_engine
        \<lparr>board = [''e2e4'', ''e7e5''], san_history = [''e4'', ''e5'']\<rparr> (- 3) = Inr []"
proof -
  let ?s = "\<lparr>board = [''e2e4'', ''e7e5''], san_history = [''e4'', ''e5'']\<rparr> :: string list GameState"
  have am: "all_moves toy_engine ?s = [''e2e4'', ''e7e5'']"
    by (simp add: all_moves_def toy_engine_def)
  from last_n_views [of 0 toy_engine ?s]
  have a: "last_n_moves toy_engine ?s 0 = []" by simp
  from last_n_views [of 1 toy_engine ?s]
  have b: "last_n_moves toy_engine ?s 1 = [''e7e5'']" by (simp add: am)
  from last_n_views [of 5 toy_engine ?s]
  have c: "last_n_moves toy_engine ?s 5 = [''e2e4'', ''e7e5'']" by (simp add: am)
  from last_n_views [of "- 3" toy_engine ?s]
  have d: "last_n_moves_detailed toy_engine ?s (- 3) = Inr []" by simp
  from a b c d show ?thesis by blast
qed

section \<open>Reset\<close>

text \<open>
  C6. From every state, \<open>reset\<close> yields the state the module starts with: the
  starting board, an empty notation history, no moves, and a status with White
  to move and ply count 0. The \<open>create_or_reset_game\<close> tool leaves that state and
  does not raise; it answers \<open>ok: True\<close> with empty move lists. That the starting
  board has White to move and an empty move stack is the library's contract.
\<close>

theorem reset_yields_initial_state:
  assumes "board_contract E"
  shows "reset E s = new E
     \<and> board (reset E s) = Board_new E
     \<and> san_history (reset E s) = []
     \<and> all_moves E (reset E s) = []
     \<and> (\<exists>st. status E (reset E s) = Inr st
           \<and> side_to_move st = ''white'' \<and> ply_count st = 0
           \<and> last_move_uci st = None \<and> last_move_san st = None)
     \<and> snd (create_or_reset_game E s) = reset E s
     \<and> (\<exists>d. fst (create_or_reset_game E s) = Inr d
           \<and> d ''ok'' = Some (PyBool True)
           \<and> d ''moves'' = Some (PyStrList [])
           \<and> d ''moves_detailed'' = Some (PyDetails []))"
proof -
  from assms have b: "Board_reset E (board s) = Board_new E"
    and ms: "Board_move_stack E (Board_new E) = []"
    and wt: "Board_turn E (Board_new E)"
    by (simp_all add: board_contract_def)
  have r: "reset E s = new E" by (simp add: reset_def new_def b)
  have st: "\<exists>st. status E (new E) = Inr st
           \<and> side_to_move st = ''white'' \<and> ply_count st = 0
           \<and> last_move_uci st = None \<and> last_move_san st = None"
    by (simp add: status_eq new_def ms wt)
  have tool: "\<exists>d. fst (create_or_reset_game E s) = Inr d
           \<and> d ''ok'' = Some (PyBool True)
           \<and> d ''moves'' = Some (PyStrList [])
           \<and> d ''moves_detailed'' = Some (PyDetails [])"
    by (simp add: create_or_reset_game_def Let_def r status_eq and_then_def all_moves_def
        py_enumerate_def new_def ms)
  from r st tool show ?thesis
    by (simp add: create_or_reset_game_state) (simp add: new_def all_moves_def ms)
qed

theorem reset_yields_initial_state_witness:
  "board_contract toy_engine
   \<and> reset toy_engine \<lparr>board = [''e2e4'', ''e7e5''], san_history = [''e4'', ''e5'']\<rparr>
       = \<lparr>board = [], san_history = []\<rparr>
   \<and> (\<exists>st. status toy_engine
              (reset toy_engine \<lparr>board = [''e2e4'', ''e7e5''], san_history = [''e4'', ''e5'']\<rparr>)
            = Inr st \<and> side_to_move st = ''white'' \<and> ply_count st = 0)"
proof -
  have n: "new toy_engine = \<lparr>board = [], san_history = []\<rparr>"
    by (simp add: new_def toy_engine_def)
  let ?s = "\<lparr>board = [''e2e4'', ''e7e5''], san_history = [''e4'', ''e5'']\<rparr> :: string list GameState"
  note r = reset_yields_initial_state [OF toy_contract, of ?s]
  from r have "reset toy_engine ?s = \<lparr>board = [], san_history = []\<rparr>"
    by (simp add: n)
  moreover from r have "\<exists>st. status toy_engine (reset toy_engine ?s) = Inr st
      \<and> side_to_move st = ''white'' \<and> ply_count st = 0"
    by blast
  ultimately show ?thesis using toy_contract by blast
qed

section \<open>Status\<close>

text \<open>
  C7. For every serialized position, \<open>status\<close> does not raise. The string has a
  layout into whitespace-delimited fields, and for every such layout the castling
  rights that \<open>status\<close> reports are the third field and the en-passant square
  the fourth, counted from 1; each is \<open>None\<close> when the string has fewer fields
  than that. These are the third and fourth entry of \<open>fen.split()\<close>.
\<close>

theorem status_castling_en_passant_fields:
  "(\<exists>st. status E s = Inr st
      \<and> castling_rights st =
          (if 3 \<le> length (py_split (Board_fen E (board s)))
           then Some (py_split (Board_fen E (board s)) ! 2) else None)
      \<and> en_passant_square st =
          (if 4 \<le> length (py_split (Board_fen E (board s)))
           then Some (py_split (Board_fen E (board s)) ! 3) else None))
   \<and> (\<exists>lead fgs. fields_layout lead fgs \<and> Board_fen E (board s) = weave lead fgs)
   \<and> (\<forall>lead fgs. fields_layout lead fgs \<and> Board_fen E (board s) = weave lead fgs \<longrightarrow>
         (\<exists>st. status E s = Inr st
            \<and> castling_rights st = (if 3 \<le> length fgs then Some (fst (fgs ! 2)) else None)
            \<and> en_passant_square st = (if 4 \<le> length fgs then Some (fst (fgs ! 3)) else None)))"
proof -
  have by_layout: "\<exists>st. status E s = Inr st
            \<and> castling_rights st = (if 3 \<le> length fgs then Some (fst (fgs ! 2)) else None)
            \<and> en_passant_square st = (if 4 \<le> length fgs then Some (fst (fgs ! 3)) else None)"
    if "fields_layout lead fgs" and "Board_fen E (board s) = weave lead fgs" for lead fgs
  proof -
    from that have "py_split (Board_fen E (board s)) = map fst fgs"
      by (simp add: py_split_weave)
    then show ?thesis by (simp add: status_eq)
  qed
  have "\<exists>lead fgs. fields_layout lead fgs \<and> Board_fen E (board s) = weave lead fgs"
    by (rule every_string_has_layout)
  moreover have "\<exists>st. status E s = Inr st
      \<and> castling_rights st =
          (if 3 \<le> length (py_split (Board_fen E (board s)))
           then Some (py_split (Board_fen E (board s)) ! 2) else None)
      \<and> en_passant_square st =
          (if 4 \<le> length (py_split (Board_fen E (board s)))
           then Some (py_split (Board_fen E (board s)) ! 3) else None)"
    by (simp add: status_eq)
  ultimately show ?thesis using by_layout by blast
qed

theorem status_castling_en_passant_fields_witness:
  "(\<exists>st. status toy_engine (new toy_engine) = Inr st
      \<and> castling_rights st = Some ''KQkq'' \<and> en_passant_square st = Some ''-'')
   \<and> (\<exists>st. status toy_engine \<lparr>board = [''a1a1''], san_history = []\<rparr> = Inr st
      \<and> castling_rights st = None \<and> en_passant_square st = None)
   \<and> (\<exists>st. status (toy_engine\<lparr>Board_fen := \<lambda>b. ''8/8'' @ [CHR 0xA0] @ ''w  KQkq'' @ [CHR 0x09] @ ''-''\<rparr>)
              (new toy_engine) = Inr st
      \<and> castling_rights st = Some ''KQkq'' \<and> en_passant_square st = Some ''-'')"
proof -
  let ?short = "\<lparr>board = [''a1a1''], san_history = []\<rparr> :: string list GameState"
  let ?E = "toy_engine\<lparr>Board_fen := \<lambda>b. ''8/8'' @ [CHR 0xA0] @ ''w  KQkq'' @ [CHR 0x09] @ ''-''\<rparr>"
  let ?start = "[(''rnbqkbnr/pppppppp/8/8/8/8/PPPPPPPP/RNBQKBNR'', '' ''), (''w'', '' ''),
                 (''KQkq'', '' ''), (''-'', '' ''), (''0'', '' ''), (''1'', [])]"
  let ?two = "[(''8/8/8/8/8/8/8/8'', '' ''), (''w'', [])]"
  let ?odd = "[(''8/8'', [CHR 0xA0]), (''w'', ''  ''), (''KQkq'', [CHR 0x09]), (''-'', [])]"
  have a: "fields_layout [] ?start \<and> Board_fen toy_engine (board (new toy_engine)) = weave [] ?start"
    by (simp add: is_gap_def is_field_def py_isspace_def new_def toy_engine_def toy_fen_def)
  have b: "fields_layout [] ?two \<and> Board_fen toy_engine (board ?short) = weave [] ?two"
    by (simp add: is_gap_def is_field_def py_isspace_def toy_engine_def toy_fen_def)
  have c: "fields_layout [] ?odd \<and> Board_fen ?E (board (new toy_engine)) = weave [] ?odd"
    by (simp add: is_gap_def is_field_def py_isspace_def)
  from status_castling_en_passant_fields [of toy_engine "new toy_engine"] a
  have "\<exists>st. status toy_engine (new toy_engine) = Inr st
      \<and> castling_rights st = (if 3 \<le> length ?start then Some (fst (?start ! 2)) else None)
      \<and> en_passant_square st = (if 4 \<le> length ?start then Some (fst (?start ! 3)) else None)"
    by blast
  then have ra: "\<exists>st. status toy_engine (new toy_engine) = Inr st
      \<and> castling_rights st = Some ''KQkq'' \<and> en_passant_square st = Some ''-''"
    by simp
  from status_castling_en_passant_fields [of toy_engine ?short] b
  have "\<exists>st. status toy_engine ?short = Inr st
      \<and> castling_rights st = (if 3 \<le> length ?two then Some (fst (?two ! 2)) else None)
      \<and> en_passant_square st = (if 4 \<le> length ?two then Some (fst (?two ! 3)) else None)"
    by blast
  then have rb: "\<exists>st. status toy_engine ?short = Inr st
      \<and> castling_rights st = None \<and> en_passant_square st = None"
    by simp
  from status_castling_en_passant_fields [of ?E "new toy_engine"] c
  have "\<exists>st. status ?E (new toy_engine) = Inr st
      \<and> castling_rights st = (if 3 \<le> length ?odd then Some (fst (?odd ! 2)) else None)
      \<and> en_passant_square st = (if 4 \<le> length ?odd then Some (fst (?odd ! 3)) else None)"
    by blast
  then have rc: "\<exists>st. status ?E (new toy_engine) = Inr st
      \<and> castling_rights st = Some ''KQkq'' \<and> en_passant_square st = Some ''-''"
    by simp
  from ra rb rc show ?thesis by blast
qed

section \<open>Legality queries\<close>

text \<open>
  C8. For every descriptor and every state, \<open>is_move_legal\<close> and the \<open>is_legal\<close>
  tool leave the state as it was, whether the descriptor parses or not.
\<close>

theorem is_legal_frame:
  "snd (is_move_legal E s u) = s \<and> snd (is_legal E s u) = s"
  by (simp add: is_legal_def is_move_legal_def split: sum.split)

section \<open>Notation of an accepted move\<close>

text \<open>
  C9. When \<open>add_move_uci\<close> accepts a descriptor in a state whose notation history
  is as long as its move stack, the descriptor parsed to a legal move \<open>m\<close>; the
  board after the call is the board after pushing \<open>m\<close>; the notation history
  grew by exactly the rendering of \<open>m\<close> on the board before the push; the
  detailed view grew by one record, the earlier records unchanged; the new
  record has ply \<open>len(history) + 1\<close> and carries that rendering; and where the
  rendering of \<open>m\<close> on the board after the push differs, the record does not
  carry it.
\<close>

theorem accepted_move_notation:
  assumes "board_contract E"
    and "length (san_history s) = length (Board_move_stack E (board s))"
    and "fst (add_move_uci E s u) ''accepted'' = Some (PyBool True)"
  shows "\<exists>m. Move_from_uci E u = Inr m \<and> m \<in> Board_legal_moves E (board s)
     \<and> board (snd (add_move_uci E s u)) = Board_push E (board s) m
     \<and> san_history (snd (add_move_uci E s u)) = san_history s @ [Board_san E (board s) m]
     \<and> (\<exists>old ds. all_moves_detailed E s = Inr old
           \<and> all_moves_detailed E (snd (add_move_uci E s u)) = Inr ds
           \<and> length ds = length (san_history s) + 1
           \<and> butlast ds = old
           \<and> ply (last ds) = int (length (san_history s)) + 1
           \<and> san (last ds) = Some (Board_san E (board s) m)
           \<and> (Board_san E (Board_push E (board s) m) m \<noteq> Board_san E (board s) m \<longrightarrow>
                san (last ds) \<noteq> Some (Board_san E (Board_push E (board s) m) m)))"
proof (cases "Move_from_uci E u")
  case (Inl d)
  with assms(3) show ?thesis by (simp add: add_move_uci_parse_error)
next
  case (Inr m)
  show ?thesis
  proof (cases "m \<in> Board_legal_moves E (board s)")
    case False
    with Inr assms(3) show ?thesis by (simp add: add_move_uci_illegal)
  next
    case True
    let ?ms = "Board_move_stack E (board s)"
    let ?h = "san_history s @ [Board_san E (board s) m]"
    from assms(1) obtain m' where
      push: "Board_move_stack E (Board_push E (board s) m) = ?ms @ [m']"
      unfolding board_contract_def by blast
    have s': "add_move_uci E s u =
        ([''accepted'' \<mapsto> PyBool True], s\<lparr>board := Board_push E (board s) m, san_history := ?h\<rparr>)"
      using Inr True by (rule add_move_uci_legal)
    let ?old = "map (\<lambda>i. move_record E (san_history s) (int i) (?ms ! i)) [0..<length ?ms]"
    let ?ds = "map (\<lambda>i. move_record E ?h (int i) ((?ms @ [m']) ! i)) [0..<Suc (length ?ms)]"
    have new_ds: "all_moves_detailed E (snd (add_move_uci E s u)) = Inr ?ds"
      by (simp add: s' all_moves_detailed_eq push)
    have same: "map (\<lambda>i. move_record E ?h (int i) ((?ms @ [m']) ! i)) [0..<length ?ms] = ?old"
      using assms(2) by (simp add: move_record_def nth_append)
    have bl: "butlast ?ds = ?old"
      using same by simp
    have la: "last ?ds = move_record E ?h (int (length ?ms)) m'"
      by simp
    have "san (last ?ds) = Some (Board_san E (board s) m)"
      using assms(2) by (simp add: la move_record_def nth_append)
    moreover have "ply (last ?ds) = int (length (san_history s)) + 1"
      using assms(2) by (simp add: la move_record_def)
    moreover have "length ?ds = length (san_history s) + 1"
      using assms(2) by simp
    ultimately show ?thesis
      using Inr True s' new_ds bl by (simp add: all_moves_detailed_eq del: upt_Suc map_append)
  qed
qed

theorem accepted_move_notation_witness:
  "board_contract toy_engine
   \<and> length (san_history (new toy_engine))
       = length (Board_move_stack toy_engine (board (new toy_engine)))
   \<and> fst (add_move_uci toy_engine (new toy_engine) ''e2e4'') ''accepted'' = Some (PyBool True)
   \<and> Board_san toy_engine (board (new toy_engine)) ''e2e4'' = ''e4''
   \<and> Board_san toy_engine (Board_push toy_engine (board (new toy_engine)) ''e2e4'') ''e2e4'' = ''--''
   \<and> (\<exists>ds. all_moves_detailed toy_engine (snd (add_move_uci toy_engine (new toy_engine) ''e2e4''))
              = Inr ds
         \<and> length ds = 1 \<and> ply (last ds) = 1 \<and> san (last ds) = Some ''e4'')"
proof -
  let ?s = "new toy_engine"
  have inv: "length (san_history ?s) = length (Board_move_stack toy_engine (board ?s))"
    by (simp add: new_def toy_engine_def)
  have acc: "fst (add_move_uci toy_engine ?s ''e2e4'') ''accepted'' = Some (PyBool True)"
    by (simp add: add_move_uci_def new_def toy_engine_def toy_from_uci_def toy_square_def
        toy_legal_moves_def Let_def)
  have parse: "Move_from_uci toy_engine ''e2e4'' = Inr ''e2e4''"
    by (simp add: toy_engine_def toy_from_uci_def toy_square_def)
  have pre: "Board_san toy_engine (board ?s) ''e2e4'' = ''e4''"
    by (simp add: new_def toy_engine_def toy_san_def toy_legal_moves_def)
  have post: "Board_san toy_engine (Board_push toy_engine (board ?s) ''e2e4'') ''e2e4'' = ''--''"
    by (simp add: new_def toy_engine_def toy_san_def toy_legal_moves_def)
  have len: "length (san_history ?s) = 0"
    by (simp add: new_def)
  from accepted_move_notation [OF toy_contract inv acc] parse
  have "\<exists>ds. all_moves_detailed toy_engine (snd (add_move_uci toy_engine ?s ''e2e4'')) = Inr ds
         \<and> length ds = length (san_history ?s) + 1
         \<and> ply (last ds) = int (length (san_history ?s)) + 1
         \<and> san (last ds) = Some (Board_san toy_engine (board ?s) ''e2e4'')"
    by auto
  then have "\<exists>ds. all_moves_detailed toy_engine (snd (add_move_uci toy_engine ?s ''e2e4'')) = Inr ds
         \<and> length ds = 1 \<and> ply (last ds) = 1 \<and> san (last ds) = Some ''e4''"
    by (simp add: len pre)
  with toy_contract inv acc pre post show ?thesis by blast
qed

section \<open>The two suffix views agree\<close>

text \<open>
  C10. For every integer \<open>n\<close> and every state, the \<open>last_moves_detailed\<close> tool
  returns what \<open>GameState.last_n_moves_detailed\<close> returns, and neither raises.
\<close>

theorem last_moves_detailed_refines:
  "last_moves_detailed E s n = last_n_moves_detailed E s n
   \<and> (\<exists>ds. last_n_moves_detailed E s n = Inr ds)"
proof (cases "n \<le> 0")
  case True
  then show ?thesis by (simp add: last_moves_detailed_def last_n_moves_detailed_def)
next
  case False
  then have "0 < n" by simp
  then show ?thesis by (simp add: last_moves_detailed_eq last_n_moves_detailed_eq)
qed

end
